theory Spec2Isabelle
  imports Main
begin

section \<open>Python string operations used by \<open>transpile_query\<close>\<close>

text \<open>
  \<open>s.startswith(p)\<close>: the first \<open>len(p)\<close> characters of \<open>s\<close> are \<open>p\<close>.
\<close>

definition startswith :: "string \<Rightarrow> string \<Rightarrow> bool" where
  "startswith s p = (take (length p) s = p)"

text \<open>
  \<open>s.replace(old, new)\<close> without a count: every non-overlapping occurrence of \<open>old\<close>,
  found from left to right, is replaced. With an empty \<open>old\<close> Python puts \<open>new\<close> before
  every character and at the end.
\<close>

function str_replace :: "string \<Rightarrow> string \<Rightarrow> string \<Rightarrow> string" where
  "str_replace s old new =
     (if old = [] then new @ concat (map (\<lambda>c. c # new) s)
      else if s = [] then []
      else if startswith s old then new @ str_replace (drop (length old) s) old new
      else hd s # str_replace (tl s) old new)"
  by pat_completeness auto
termination
  by (relation "measure (\<lambda>(s, old, new). length s)") auto

declare str_replace.simps [simp del]

text \<open>\<open>p in s\<close>: the string \<open>p\<close> occurs somewhere in \<open>s\<close>.\<close>

fun contains :: "string \<Rightarrow> string \<Rightarrow> bool" where
  "contains [] p = (p = [])"
| "contains (c # cs) p = (startswith (c # cs) p \<or> contains cs p)"

section \<open>The syntax tree of the SQL engine\<close>

text \<open>
  An identifier node carries its text (the \<open>this\<close> slot, read by \<open>.name\<close>) and the
  \<open>quoted\<close> flag.
\<close>

datatype ident = Identifier (name: string) (quoted: bool)

text \<open>
  The classes of function-call nodes that \<open>transpile_query\<close> tells apart: the parser's
  generic \<open>exp.Anonymous\<close> and the two typed classes of \<open>patches.postgres\<close>.
\<close>

datatype klass = Anonymous | DateTime | GenerateArray

text \<open>
  A value stored in a node's \<open>args\<close> dictionary: a plain string (the callee name of an
  anonymous call), a child node, or a list of child nodes.
\<close>

datatype 'e arg = Str string | Node 'e | Nodes "'e list"

text \<open>
  A table reference has the slots \<open>catalog\<close>, \<open>db\<close> and \<open>this\<close> (the name component) and
  any further slots (alias, joins, ...). A function call has its class and its \<open>args\<close>
  dictionary, kept in insertion order. Every other node is its class name and its
  \<open>args\<close>. An absent slot and a slot holding Python's \<open>None\<close> are both \<open>None\<close>.
\<close>

datatype expr =
    Table (catalog: "ident option") (db: "ident option") (this: ident)
          (rest: "(string \<times> expr arg) list")
  | Call (cls: klass) (args: "(string \<times> expr arg) list")
  | Expression (key: string) (args: "(string \<times> expr arg) list")

text \<open>\<open>Table.catalog\<close> is \<open>self.text("catalog")\<close>: the identifier's text, or the empty
  string when the slot is empty.\<close>

definition catalog_text :: "ident option \<Rightarrow> string" where
  "catalog_text c = (case c of None \<Rightarrow> [] | Some i \<Rightarrow> name i)"

text \<open>\<open>to_identifier(name=s, quoted=q)\<close> on a string builds a fresh identifier node.\<close>

definition to_identifier :: "string \<Rightarrow> bool \<Rightarrow> ident" where
  "to_identifier s q = Identifier s q"

section \<open>Removing the catalog (lines 24 to 36)\<close>

definition catalog_to_remove :: string where
  "catalog_to_remove = ''physionet-data''"

text \<open>The body of the loop over \<open>find_all(exp.Table)\<close>, on one table node.\<close>

fun strip_catalog :: "expr \<Rightarrow> expr" where
  "strip_catalog (Table c d t r) =
     (if catalog_text c = catalog_to_remove then Table None d t r
      else if startswith (name t) catalog_to_remove then
        Table c d
          (to_identifier (str_replace (name t) (catalog_to_remove @ ''.'') []) False) r
      else Table c d t r)"
| "strip_catalog e = e"

text \<open>
  The loop visits every table node of the tree and edits it in place; the edits touch
  only the node's own \<open>catalog\<close> and \<open>this\<close> slots, so the result is the tree with the
  body applied at every table node.
\<close>

primrec remove_catalog :: "expr \<Rightarrow> expr" where
  "remove_catalog (Table c d t r) =
     strip_catalog (Table c d t (map (map_prod id (map_arg remove_catalog)) r))"
| "remove_catalog (Call k a) = Call k (map (map_prod id (map_arg remove_catalog)) a)"
| "remove_catalog (Expression k a) =
     Expression k (map (map_prod id (map_arg remove_catalog)) a)"

text \<open>
  \<open>find_all(exp.Table)\<close>: the table nodes of a tree, the node itself included. The loop
  body edits each node on its own, so the order in which the engine yields them plays no
  part; they are taken as a set.
\<close>

definition arg_nodes :: "(string \<times> 'a set arg) list \<Rightarrow> 'a set" where
  "arg_nodes a = (\<Union>kv \<in> set a. \<Union> (set_arg (snd kv)))"

primrec find_all_Table :: "expr \<Rightarrow> expr set" where
  "find_all_Table (Table c d t r) =
     insert (Table c d t r) (arg_nodes (map (map_prod id (map_arg find_all_Table)) r))"
| "find_all_Table (Call k a) = arg_nodes (map (map_prod id (map_arg find_all_Table)) a)"
| "find_all_Table (Expression k a) =
     arg_nodes (map (map_prod id (map_arg find_all_Table)) a)"

text \<open>
  A table node is stable when a second run of the loop body would leave it as the first
  run made it. With the marker as catalog the first run only clears the catalog, so the
  name must not start with the marker, or else be unquoted and free of \<open>physionet-data.\<close>
  already. With another catalog and a name starting with the marker, the rewritten name
  must not start with the marker again, or else be free of \<open>physionet-data.\<close>.
\<close>

fun stable_node :: "expr \<Rightarrow> bool" where
  "stable_node (Table c d t r) =
     (if catalog_text c = catalog_to_remove then
        \<not> startswith (name t) catalog_to_remove \<or>
        (\<not> quoted t \<and> \<not> contains (name t) (catalog_to_remove @ ''.''))
      else
        \<not> startswith (name t) catalog_to_remove \<or>
        \<not> startswith (str_replace (name t) (catalog_to_remove @ ''.'') [])
                      catalog_to_remove \<or>
        \<not> contains (str_replace (name t) (catalog_to_remove @ ''.'') [])
                    (catalog_to_remove @ ''.''))"
| "stable_node e = True"

section \<open>Replacing anonymous function calls (lines 38 to 52)\<close>

text \<open>\<open>anon_function.this == s\<close>: the \<open>this\<close> slot holds exactly the string \<open>s\<close>. A slot
  holding a node, or no slot, never equals a string.\<close>

definition this_eq :: "(string \<times> expr arg) list \<Rightarrow> string \<Rightarrow> bool" where
  "this_eq a s = (map_of a ''this'' = Some (Str s))"

text \<open>\<open>DateTime(**anon_function.args)\<close> and \<open>GenerateArray(**anon_function.args)\<close>: the
  constructor stores the keyword arguments it receives as the new node's \<open>args\<close>.\<close>

definition named_function :: "klass \<Rightarrow> (string \<times> expr arg) list \<Rightarrow> expr" where
  "named_function k a = Call k a"

text \<open>The body of the loop over \<open>find_all(exp.Anonymous)\<close>, on one node: the node handed
  to \<open>replace\<close>, or \<open>None\<close> when neither branch is taken.\<close>

fun replacement :: "expr \<Rightarrow> expr option" where
  "replacement (Call Anonymous a) =
     (if this_eq a ''DATETIME'' then Some (named_function DateTime a)
      else if this_eq a ''GENERATE_ARRAY'' then Some (named_function GenerateArray a)
      else None)"
| "replacement e = None"

text \<open>What stands in the parent's slot after the body has run on a node.\<close>

definition replaced :: "expr \<Rightarrow> expr" where
  "replaced e = (case replacement e of None \<Rightarrow> e | Some n \<Rightarrow> n)"

text \<open>
  The loop on a node that has a parent: \<open>replace\<close> puts the typed node into the parent's
  slot, and the walk goes on into the arguments, which the typed node now holds.
\<close>

primrec replace_anonymous :: "expr \<Rightarrow> expr" where
  "replace_anonymous (Table c d t r) =
     Table c d t (map (map_prod id (map_arg replace_anonymous)) r)"
| "replace_anonymous (Call k a) =
     replaced (Call k (map (map_prod id (map_arg replace_anonymous)) a))"
| "replace_anonymous (Expression k a) =
     Expression k (map (map_prod id (map_arg replace_anonymous)) a)"

text \<open>
  The loop on a node that is not substituted although the body builds a typed node for
  it. Building the typed node makes the typed node the parent of the arguments, and the
  typed node is not part of the tree. A recognised call among the arguments is therefore
  replaced inside the typed node only: in the tree it stays anonymous, and the same
  holds below it. Any other argument is still the parent of its own children, so the
  walk below it is the usual one.
\<close>

primrec unlinked :: "expr \<Rightarrow> expr" where
  "unlinked (Table c d t r) =
     Table c d t (map (map_prod id (map_arg replace_anonymous)) r)"
| "unlinked (Call k a) =
     (case replacement (Call k a) of
        None \<Rightarrow> Call k (map (map_prod id (map_arg replace_anonymous)) a)
      | Some n \<Rightarrow> Call k (map (map_prod id (map_arg unlinked)) a))"
| "unlinked (Expression k a) =
     Expression k (map (map_prod id (map_arg replace_anonymous)) a)"

text \<open>
  The loop on the parsed tree. The root has no parent: \<open>replace\<close> on it substitutes
  nothing, and \<open>sql_parsed\<close> goes on naming the node the parser returned.
\<close>

definition replace_all_anonymous :: "expr \<Rightarrow> expr" where
  "replace_all_anonymous sql_parsed = unlinked sql_parsed"

text \<open>The step as \<open>transpile_query\<close> runs it: only for the source dialect \<open>bigquery\<close>.\<close>

definition function_resolver :: "string \<Rightarrow> expr \<Rightarrow> expr" where
  "function_resolver source_dialect sql_parsed =
     (if source_dialect = ''bigquery'' then replace_all_anonymous sql_parsed
      else sql_parsed)"

section \<open>\<open>transpile_query\<close>\<close>

text \<open>
  The parser and the renderer belong to the SQL engine, so they are parameters:
  \<open>parse_one query read\<close> returns the tree or raises, \<open>sql tree dialect pretty\<close> returns
  the text or raises. An exception is the \<open>Inl\<close> of the result; \<open>transpile_query\<close>
  catches none.
\<close>

datatype error = ParseError string | RenderError string

definition transpile_query ::
  "(string \<Rightarrow> string \<Rightarrow> error + expr) \<Rightarrow> (expr \<Rightarrow> string \<Rightarrow> bool \<Rightarrow> error + string) \<Rightarrow>
   string \<Rightarrow> string \<Rightarrow> string \<Rightarrow> error + string" where
  "transpile_query parse_one sql query source_dialect destination_dialect =
     (case parse_one query source_dialect of
        Inl e \<Rightarrow> Inl e
      | Inr sql_parsed \<Rightarrow>
          sql (function_resolver source_dialect (remove_catalog sql_parsed))
              destination_dialect True)"

section \<open>Facts about the string operations\<close>

lemma str_replace_absent:
  "old \<noteq> [] \<Longrightarrow> \<not> contains s old \<Longrightarrow> str_replace s old new = s"
proof (induction s)
  case Nil
  then show ?case by (simp add: str_replace.simps)
next
  case (Cons c cs)
  then show ?case by (subst str_replace.simps) simp
qed

lemma str_replace_length_le:
  "old \<noteq> [] \<Longrightarrow> length (str_replace s old []) \<le> length s"
proof (induction "length s" arbitrary: s rule: less_induct)
  case less
  show ?case
  proof (cases "s = []")
    case True
    with less.prems show ?thesis by (simp add: str_replace.simps)
  next
    case False
    show ?thesis
    proof (cases "startswith s old")
      case True
      have "length (drop (length old) s) < length s"
        using False less.prems by simp
      from less.hyps [OF this less.prems] this
      have "length (str_replace (drop (length old) s) old []) < length s" by simp
      moreover have "str_replace s old [] = str_replace (drop (length old) s) old []"
        using True False less.prems by (subst str_replace.simps) simp
      ultimately show ?thesis by simp
    next
      case nsw: False
      have "length (tl s) < length s" using False by simp
      from less.hyps [OF this less.prems]
      have "length (str_replace (tl s) old []) \<le> length (tl s)" .
      moreover have "str_replace s old [] = hd s # str_replace (tl s) old []"
        using nsw False less.prems by (subst str_replace.simps) simp
      ultimately show ?thesis using False by (cases s) simp_all
    qed
  qed
qed

lemma str_replace_length_less:
  "old \<noteq> [] \<Longrightarrow> contains s old \<Longrightarrow> length (str_replace s old []) < length s"
proof (induction s)
  case Nil
  then show ?case by simp
next
  case (Cons c cs)
  show ?case
  proof (cases "startswith (c # cs) old")
    case True
    have "str_replace (c # cs) old [] = str_replace (drop (length old) (c # cs)) old []"
      using True Cons.prems by (subst str_replace.simps) simp
    moreover have "length (str_replace (drop (length old) (c # cs)) old []) \<le>
                   length (drop (length old) (c # cs))"
      using Cons.prems(1) by (rule str_replace_length_le)
    moreover have "length (drop (length old) (c # cs)) < length (c # cs)"
      using Cons.prems(1) by simp
    ultimately show ?thesis by simp
  next
    case False
    with Cons.prems have "contains cs old" by simp
    with Cons.IH Cons.prems have "length (str_replace cs old []) < length cs" by simp
    moreover have "str_replace (c # cs) old [] = c # str_replace cs old []"
      using False Cons.prems by (subst str_replace.simps) simp
    ultimately show ?thesis by simp
  qed
qed

lemma str_replace_fixed_iff:
  "old \<noteq> [] \<Longrightarrow> str_replace s old [] = s \<longleftrightarrow> \<not> contains s old"
  using str_replace_absent [of old s "[]"] str_replace_length_less [of old s]
  by auto

lemma str_replace_prefix:
  "old \<noteq> [] \<Longrightarrow> str_replace (old @ s) old new = new @ str_replace s old new"
  by (subst str_replace.simps) (simp add: startswith_def)


section \<open>The catalog pass on one table node\<close>

text \<open>
  Claim C1 says that a node whose catalog is not the marker and whose name does not start
  with \<open>physionet-data.\<close> is left as it is. The guard of the second branch tests the
  prefix \<open>physionet-data\<close> without the dot, so the quoted name \<open>physionet-data2.foo\<close>
  enters the branch: nothing is stripped from it, and it loses its quoting.
\<close>

theorem name_without_dot_boundary_unquoted:
  "catalog_text None \<noteq> catalog_to_remove \<and>
   \<not> startswith ''physionet-data2.foo'' (catalog_to_remove @ ''.'') \<and>
   remove_catalog (Table None None (Identifier ''physionet-data2.foo'' True) []) =
     Table None None (Identifier ''physionet-data2.foo'' False) []"
  by code_simp

text \<open>What does hold: a node whose catalog is not the marker and whose name does not
  start with \<open>physionet-data\<close> is not changed by the loop body.\<close>

lemma strip_catalog_no_prefix:
  "catalog_text c \<noteq> catalog_to_remove \<Longrightarrow> \<not> startswith (name t) catalog_to_remove \<Longrightarrow>
   strip_catalog (Table c d t r) = Table c d t r"
  by simp

text \<open>The second branch on a name that is \<open>physionet-data.\<close> followed by \<open>rst\<close>: the
  leading marker goes, and \<open>replace\<close> then runs over \<open>rst\<close>.\<close>

lemma strip_catalog_marker_prefix:
  assumes "catalog_text c \<noteq> catalog_to_remove"
  shows "strip_catalog (Table c d (Identifier (catalog_to_remove @ ''.'' @ rst) q) r) =
           Table c d (Identifier (str_replace rst (catalog_to_remove @ ''.'') []) False) r"
proof -
  let ?m = "catalog_to_remove @ ''.''"
  have nm: "catalog_to_remove @ ''.'' @ rst = ?m @ rst" by simp
  have sw: "startswith (?m @ rst) catalog_to_remove"
    by (simp add: startswith_def)
  have rp: "str_replace (?m @ rst) ?m [] = str_replace rst ?m []"
    using str_replace_prefix [of ?m rst "[]"] by simp
  have "strip_catalog (Table c d (Identifier (?m @ rst) q) r) =
     Table c d (Identifier (str_replace rst ?m []) False) r"
    using assms sw rp by (simp add: to_identifier_def del: append_assoc)
  then show ?thesis unfolding nm .
qed


text \<open>Running the loop body a second time changes a table node exactly when the node is
  not stable.\<close>

lemma marker_dot_nonempty: "catalog_to_remove @ ''.'' \<noteq> []"
  by simp

lemma marker_not_empty: "catalog_text None \<noteq> catalog_to_remove"
  by (simp add: catalog_text_def catalog_to_remove_def)

lemma strip_twice_iff:
  "strip_catalog (strip_catalog (Table c d t r)) = strip_catalog (Table c d t r) \<longleftrightarrow>
   stable_node (Table c d t r)"
proof (cases "catalog_text c = catalog_to_remove")
  case True
  have "t = Identifier (str_replace (name t) (catalog_to_remove @ ''.'') []) False \<longleftrightarrow>
        \<not> quoted t \<and> \<not> contains (name t) (catalog_to_remove @ ''.'')"
    using str_replace_fixed_iff [OF marker_dot_nonempty, of "name t"]
    by (cases t) auto
  with True marker_not_empty show ?thesis
    by (auto simp: to_identifier_def)
next
  case False
  let ?s = "str_replace (name t) (catalog_to_remove @ ''.'') []"
  have "str_replace ?s (catalog_to_remove @ ''.'') [] = ?s \<longleftrightarrow>
        \<not> contains ?s (catalog_to_remove @ ''.'')"
    by (rule str_replace_fixed_iff [OF marker_dot_nonempty])
  with False show ?thesis
    by (auto simp: to_identifier_def)
qed

section \<open>The catalog pass on a whole tree\<close>

lemma catalog_text_strip:
  "catalog_text (catalog (strip_catalog (Table c d t r))) \<noteq> catalog_to_remove"
  by (simp add: catalog_text_def catalog_to_remove_def)

lemma arg_nodes_map:
  "arg_nodes (map (map_prod id (map_arg f)) a) = (\<Union>kv \<in> set a. \<Union>x \<in> set_arg (snd kv). f x)"
  by (auto simp: arg_nodes_def arg.set_map)

lemma map_arg_eq_iff:
  "map_arg g v = map_arg h v \<longleftrightarrow> (\<forall>x \<in> set_arg v. g x = h x)"
  by (cases v) auto

lemma args_eq_iff:
  "map (map_prod id (map_arg g)) a = map (map_prod id (map_arg h)) a \<longleftrightarrow>
   (\<forall>kv \<in> set a. \<forall>x \<in> set_arg (snd kv). g x = h x)"
  by (auto simp: map_arg_eq_iff)

lemma args_twice:
  "map (map_prod id (map_arg f)) (map (map_prod id (map_arg g)) a) =
   map (map_prod id (map_arg (\<lambda>x. f (g x)))) a"
  by (induction a) (auto simp: arg.map_comp comp_def)

lemma args_twice_iff:
  "map (map_prod id (map_arg f)) (map (map_prod id (map_arg f)) a) =
     map (map_prod id (map_arg f)) a \<longleftrightarrow>
   (\<forall>kv \<in> set a. \<forall>x \<in> set_arg (snd kv). f (f x) = f x)"
  unfolding args_twice by (rule args_eq_iff)

lemma strip_catalog_rest:
  "strip_catalog (Table c d t r) =
     Table (catalog (strip_catalog (Table c d t []))) d
           (this (strip_catalog (Table c d t []))) r"
  by simp

lemma arg_nodes_image:
  assumes "\<And>kv x. kv \<in> set a \<Longrightarrow> x \<in> set_arg (snd kv) \<Longrightarrow> F (g x) = g ` F x"
  shows "arg_nodes (map (map_prod id (map_arg F)) (map (map_prod id (map_arg g)) a)) =
         g ` arg_nodes (map (map_prod id (map_arg F)) a)"
proof -
  have "arg_nodes (map (map_prod id (map_arg F)) (map (map_prod id (map_arg g)) a)) =
        (\<Union>kv \<in> set a. \<Union>x \<in> set_arg (snd kv). F (g x))"
    unfolding args_twice by (rule arg_nodes_map)
  also have "\<dots> = (\<Union>kv \<in> set a. \<Union>x \<in> set_arg (snd kv). g ` F x)"
    using assms by simp
  also have "\<dots> = g ` (\<Union>kv \<in> set a. \<Union>x \<in> set_arg (snd kv). F x)"
    by (simp add: image_UN)
  finally show ?thesis by (simp add: arg_nodes_map)
qed

lemma find_all_Table_remove_catalog:
  "find_all_Table (remove_catalog e) = remove_catalog ` find_all_Table e"
proof (induction e)
  case (Table c d t r)
  have kids: "arg_nodes (map (map_prod id (map_arg find_all_Table))
                  (map (map_prod id (map_arg remove_catalog)) r)) =
        remove_catalog ` arg_nodes (map (map_prod id (map_arg find_all_Table)) r)"
  proof (rule arg_nodes_image)
    fix kv x assume "kv \<in> set r" "x \<in> set_arg (snd kv)"
    then show "find_all_Table (remove_catalog x) = remove_catalog ` find_all_Table x"
      using Table.IH [of kv "snd kv" x] by (simp add: snds.intros)
  qed
  show ?case
    using kids strip_catalog_rest [of c d t "map (map_prod id (map_arg remove_catalog)) r"]
    by (simp del: strip_catalog.simps)
next
  case (Call k a)
  have "arg_nodes (map (map_prod id (map_arg find_all_Table))
                  (map (map_prod id (map_arg remove_catalog)) a)) =
        remove_catalog ` arg_nodes (map (map_prod id (map_arg find_all_Table)) a)"
  proof (rule arg_nodes_image)
    fix kv x assume "kv \<in> set a" "x \<in> set_arg (snd kv)"
    then show "find_all_Table (remove_catalog x) = remove_catalog ` find_all_Table x"
      using Call.IH [of kv "snd kv" x] by (simp add: snds.intros)
  qed
  then show ?case by simp
next
  case (Expression k a)
  have "arg_nodes (map (map_prod id (map_arg find_all_Table))
                  (map (map_prod id (map_arg remove_catalog)) a)) =
        remove_catalog ` arg_nodes (map (map_prod id (map_arg find_all_Table)) a)"
  proof (rule arg_nodes_image)
    fix kv x assume "kv \<in> set a" "x \<in> set_arg (snd kv)"
    then show "find_all_Table (remove_catalog x) = remove_catalog ` find_all_Table x"
      using Expression.IH [of kv "snd kv" x] by (simp add: snds.intros)
  qed
  then show ?case by simp
qed

lemma find_all_Table_is_Table:
  "t \<in> find_all_Table e \<Longrightarrow> \<exists>c d n r. t = Table c d n r"
proof (induction e)
  case (Table c d n r)
  then show ?case by (auto simp: arg_nodes_map)
next
  case (Call k a)
  then show ?case by (auto simp: arg_nodes_map)
next
  case (Expression k a)
  then show ?case by (auto simp: arg_nodes_map)
qed

text \<open>
  Claim C4. Every table node of the tree whose catalog equals \<open>physionet-data\<close> exactly
  has its catalog slot cleared by the pass, while its schema and its name component stay
  as they were: the node the pass makes of it has an empty catalog, the same schema and
  the same name, and it is a table node of the resulting tree. No table node of the
  resulting tree has the marker as its catalog.
\<close>

theorem catalog_equal_marker_cleared:
  assumes "Table c d t r \<in> find_all_Table e"
    and "catalog_text c = ''physionet-data''"
  shows "strip_catalog (Table c d t r) = Table None d t r \<and>
         remove_catalog (Table c d t r) =
           Table None d t (map (map_prod id (map_arg remove_catalog)) r) \<and>
         Table None d t (map (map_prod id (map_arg remove_catalog)) r) \<in>
           find_all_Table (remove_catalog e) \<and>
         (\<forall>u \<in> find_all_Table (remove_catalog e).
            catalog_text (catalog u) \<noteq> ''physionet-data'')"
proof -
  have body: "strip_catalog (Table c d t r) = Table None d t r"
    using assms(2) by (simp add: catalog_to_remove_def)
  have node: "remove_catalog (Table c d t r) =
           Table None d t (map (map_prod id (map_arg remove_catalog)) r)"
    using assms(2) by (simp add: catalog_to_remove_def)
  have "remove_catalog (Table c d t r) \<in> remove_catalog ` find_all_Table e"
    using assms(1) by (rule imageI)
  then have mem: "Table None d t (map (map_prod id (map_arg remove_catalog)) r) \<in>
           find_all_Table (remove_catalog e)"
    unfolding node find_all_Table_remove_catalog .
  have none: "catalog_text (catalog u) \<noteq> ''physionet-data''"
    if "u \<in> find_all_Table (remove_catalog e)" for u
  proof -
    from that obtain v where v: "v \<in> find_all_Table e" and u: "u = remove_catalog v"
      unfolding find_all_Table_remove_catalog by blast
    from find_all_Table_is_Table [OF v] obtain c' d' n' r' where "v = Table c' d' n' r'"
      by blast
    with u have "u = strip_catalog (Table c' d' n' (map (map_prod id (map_arg remove_catalog)) r'))"
      by simp
    then show ?thesis
      using catalog_text_strip [of c' d' n' "map (map_prod id (map_arg remove_catalog)) r'"]
      by (simp add: catalog_to_remove_def del: strip_catalog.simps)
  qed
  from body node mem none show ?thesis by blast
qed

theorem catalog_equal_marker_cleared_witness:
  "Table None (Some (Identifier ''mimiciv'' False)) (Identifier ''admissions'' False) [] \<in>
     find_all_Table (remove_catalog
       (Expression ''Select''
          [(''expressions'', Nodes [Expression ''Star'' []]),
           (''from'', Node (Table (Some (Identifier ''physionet-data'' False))
                              (Some (Identifier ''mimiciv'' False))
                              (Identifier ''admissions'' False) []))]))"
proof -
  let ?e = "Expression ''Select''
          [(''expressions'', Nodes [Expression ''Star'' []]),
           (''from'', Node (Table (Some (Identifier ''physionet-data'' False))
                              (Some (Identifier ''mimiciv'' False))
                              (Identifier ''admissions'' False) []))]"
  have h1: "Table (Some (Identifier ''physionet-data'' False))
              (Some (Identifier ''mimiciv'' False)) (Identifier ''admissions'' False) []
            \<in> find_all_Table ?e"
    by (simp add: arg_nodes_def)
  have h2: "catalog_text (Some (Identifier ''physionet-data'' False)) = ''physionet-data''"
    by (simp add: catalog_text_def)
  have m: "map (map_prod id (map_arg remove_catalog)) [] = []" by simp
  from catalog_equal_marker_cleared [OF h1 h2] show ?thesis unfolding m by blast
qed

text \<open>
  Claim C2, as amended. Every table node of the tree whose catalog is not the marker and
  whose name is \<open>physionet-data.\<close> followed by a rest that holds no further
  \<open>physionet-data.\<close> is rewritten by the pass: its name becomes exactly the rest, the
  identifier is unquoted, catalog and schema stay, and the rewritten node is a table
  node of the resulting tree.
\<close>

theorem marker_prefix_stripped:
  assumes "Table c d (Identifier (catalog_to_remove @ ''.'' @ rst) q) r \<in> find_all_Table e"
    and "catalog_text c \<noteq> catalog_to_remove"
    and "\<not> contains rst (catalog_to_remove @ ''.'')"
  shows "strip_catalog (Table c d (Identifier (catalog_to_remove @ ''.'' @ rst) q) r) =
           Table c d (Identifier rst False) r \<and>
         remove_catalog (Table c d (Identifier (catalog_to_remove @ ''.'' @ rst) q) r) =
           Table c d (Identifier rst False) (map (map_prod id (map_arg remove_catalog)) r) \<and>
         Table c d (Identifier rst False) (map (map_prod id (map_arg remove_catalog)) r) \<in>
           find_all_Table (remove_catalog e)"
proof -
  have same: "str_replace rst (catalog_to_remove @ ''.'') [] = rst"
    using assms(3) str_replace_absent [of "catalog_to_remove @ ''.''" rst "[]"] by simp
  have body: "strip_catalog (Table c d (Identifier (catalog_to_remove @ ''.'' @ rst) q) r') =
           Table c d (Identifier rst False) r'" for r'
    using strip_catalog_marker_prefix [OF assms(2), of d rst q r'] same by simp
  have node: "remove_catalog (Table c d (Identifier (catalog_to_remove @ ''.'' @ rst) q) r) =
           Table c d (Identifier rst False) (map (map_prod id (map_arg remove_catalog)) r)"
    using body [of "map (map_prod id (map_arg remove_catalog)) r"]
    by (simp del: strip_catalog.simps)
  have "remove_catalog (Table c d (Identifier (catalog_to_remove @ ''.'' @ rst) q) r) \<in>
          remove_catalog ` find_all_Table e"
    using assms(1) by (rule imageI)
  then have "Table c d (Identifier rst False) (map (map_prod id (map_arg remove_catalog)) r) \<in>
           find_all_Table (remove_catalog e)"
    unfolding node find_all_Table_remove_catalog .
  with body [of r] node show ?thesis by blast
qed

theorem marker_prefix_stripped_witness:
  "Table None None (Identifier ''mimiciv.patients'' False) [] \<in>
     find_all_Table (remove_catalog
       (Expression ''Select''
          [(''expressions'', Nodes [Expression ''Star'' []]),
           (''from'', Node (Table None None
                              (Identifier ''physionet-data.mimiciv.patients'' True) []))]))"
proof -
  let ?e = "Expression ''Select''
          [(''expressions'', Nodes [Expression ''Star'' []]),
           (''from'', Node (Table None None
                              (Identifier ''physionet-data.mimiciv.patients'' True) []))]"
  have e: "catalog_to_remove @ ''.'' @ ''mimiciv.patients'' = ''physionet-data.mimiciv.patients''"
    by (simp add: catalog_to_remove_def)
  have "Table None None (Identifier ''physionet-data.mimiciv.patients'' True) []
            \<in> find_all_Table ?e"
    by (simp add: arg_nodes_def)
  then have h1: "Table None None
             (Identifier (catalog_to_remove @ ''.'' @ ''mimiciv.patients'') True) []
            \<in> find_all_Table ?e"
    unfolding e .
  have h2: "catalog_text None \<noteq> catalog_to_remove" by (rule marker_not_empty)
  have h3: "\<not> contains ''mimiciv.patients'' (catalog_to_remove @ ''.'')" by code_simp
  have m: "map (map_prod id (map_arg remove_catalog)) [] = []" by simp
  from marker_prefix_stripped [OF h1 h2 h3] show ?thesis unfolding m by blast
qed

text \<open>
  Claim C2 as stated fails twice. In the first tree the rest of the name holds a further
  \<open>physionet-data.\<close>: \<open>replace\<close> on line 30 is called without a count and removes that
  one as well, so the name becomes \<open>a.b\<close> and not the rest \<open>a.physionet-data.b\<close>; this is
  a slip of the same kind as the missing dot in the guard, and the amended claim says
  nothing about such names. In the second tree the catalog is the marker: the branches
  are \<open>if\<close> and \<open>elif\<close>, so only the catalog is cleared and the name is not rewritten.
\<close>

theorem marker_prefix_rest_counterexample:
  "find_all_Table (remove_catalog
       (Expression ''Select''
          [(''expressions'', Nodes [Expression ''Star'' []]),
           (''from'', Node (Table None None
              (Identifier (''physionet-data.'' @ ''a.physionet-data.b'') True) []))])) =
     {Table None None (Identifier ''a.b'' False) []} \<and>
   ''a.b'' \<noteq> ''a.physionet-data.b'' \<and>
   find_all_Table (remove_catalog
       (Expression ''Select''
          [(''expressions'', Nodes [Expression ''Star'' []]),
           (''from'', Node (Table (Some (Identifier ''physionet-data'' False)) None
              (Identifier (''physionet-data.'' @ ''x'') True) []))])) =
     {Table None None (Identifier ''physionet-data.x'' True) []} \<and>
   ''physionet-data.x'' \<noteq> ''x''"
  by code_simp

text \<open>
  Claim C8, as amended. Two passes give the same tree as one pass exactly when every
  table node of the tree is stable: a node with the marker as catalog has a name that
  does not start with \<open>physionet-data\<close>, or that is unquoted and holds no
  \<open>physionet-data.\<close>; a node with another catalog has a name that does not start with
  \<open>physionet-data\<close>, or whose rewritten form does not start with \<open>physionet-data\<close>, or
  holds no \<open>physionet-data.\<close>.
\<close>

theorem remove_catalog_idempotent_iff:
  "remove_catalog (remove_catalog e) = remove_catalog e \<longleftrightarrow>
   (\<forall>t \<in> find_all_Table e. stable_node t)"
proof (induction e)
  case (Table c d t r)
  let ?r' = "map (map_prod id (map_arg remove_catalog)) r"
  let ?c' = "catalog (strip_catalog (Table c d t []))"
  let ?t' = "this (strip_catalog (Table c d t []))"
  have one: "remove_catalog (Table c d t r) = Table ?c' d ?t' ?r'"
    using strip_catalog_rest [of c d t ?r'] by simp
  have two: "remove_catalog (Table ?c' d ?t' ?r') =
     Table (catalog (strip_catalog (Table ?c' d ?t' []))) d
           (this (strip_catalog (Table ?c' d ?t' [])))
           (map (map_prod id (map_arg remove_catalog)) ?r')"
    using strip_catalog_rest [of ?c' d ?t' "map (map_prod id (map_arg remove_catalog)) ?r'"]
    by simp
  have node: "catalog (strip_catalog (Table ?c' d ?t' [])) = ?c' \<and>
              this (strip_catalog (Table ?c' d ?t' [])) = ?t' \<longleftrightarrow>
              stable_node (Table c d t r)"
  proof -
    have "strip_catalog (strip_catalog (Table c d t [])) = strip_catalog (Table c d t []) \<longleftrightarrow>
          stable_node (Table c d t [])"
      by (rule strip_twice_iff)
    moreover have "strip_catalog (Table c d t []) = Table ?c' d ?t' []"
      by (rule strip_catalog_rest)
    moreover have "strip_catalog (Table ?c' d ?t' []) =
       Table (catalog (strip_catalog (Table ?c' d ?t' []))) d
             (this (strip_catalog (Table ?c' d ?t' []))) []"
      by (rule strip_catalog_rest)
    moreover have "stable_node (Table c d t []) = stable_node (Table c d t r)" by simp
    ultimately show ?thesis by (metis expr.inject(1))
  qed
  have kids: "map (map_prod id (map_arg remove_catalog)) ?r' = ?r' \<longleftrightarrow>
        (\<forall>kv \<in> set r. \<forall>x \<in> set_arg (snd kv). \<forall>u \<in> find_all_Table x. stable_node u)"
  proof -
    have "map (map_prod id (map_arg remove_catalog)) ?r' = ?r' \<longleftrightarrow>
      (\<forall>kv \<in> set r. \<forall>x \<in> set_arg (snd kv). remove_catalog (remove_catalog x) = remove_catalog x)"
      by (rule args_twice_iff)
    also have "\<dots> \<longleftrightarrow>
      (\<forall>kv \<in> set r. \<forall>x \<in> set_arg (snd kv). \<forall>u \<in> find_all_Table x. stable_node u)"
      using Table.IH by (metis snds.intros)
    finally show ?thesis .
  qed
  have "remove_catalog (remove_catalog (Table c d t r)) = remove_catalog (Table c d t r) \<longleftrightarrow>
        stable_node (Table c d t r) \<and>
        (\<forall>kv \<in> set r. \<forall>x \<in> set_arg (snd kv). \<forall>u \<in> find_all_Table x. stable_node u)"
    unfolding one two using node kids by auto
  then show ?case by (simp add: arg_nodes_map del: stable_node.simps)
next
  case (Call k a)
  have "map (map_prod id (map_arg remove_catalog)) (map (map_prod id (map_arg remove_catalog)) a)
          = map (map_prod id (map_arg remove_catalog)) a \<longleftrightarrow>
      (\<forall>kv \<in> set a. \<forall>x \<in> set_arg (snd kv). remove_catalog (remove_catalog x) = remove_catalog x)"
    by (rule args_twice_iff)
  also have "\<dots> \<longleftrightarrow>
      (\<forall>kv \<in> set a. \<forall>x \<in> set_arg (snd kv). \<forall>u \<in> find_all_Table x. stable_node u)"
    using Call.IH by (metis snds.intros)
  finally show ?case by (simp add: arg_nodes_map)
next
  case (Expression k a)
  have "map (map_prod id (map_arg remove_catalog)) (map (map_prod id (map_arg remove_catalog)) a)
          = map (map_prod id (map_arg remove_catalog)) a \<longleftrightarrow>
      (\<forall>kv \<in> set a. \<forall>x \<in> set_arg (snd kv). remove_catalog (remove_catalog x) = remove_catalog x)"
    by (rule args_twice_iff)
  also have "\<dots> \<longleftrightarrow>
      (\<forall>kv \<in> set a. \<forall>x \<in> set_arg (snd kv). \<forall>u \<in> find_all_Table x. stable_node u)"
    using Expression.IH by (metis snds.intros)
  finally show ?case by (simp add: arg_nodes_map)
qed

theorem remove_catalog_idempotent_iff_witness:
  "remove_catalog (remove_catalog
       (Expression ''Select''
          [(''expressions'', Nodes [Expression ''Star'' []]),
           (''from'', Node (Table None None
                              (Identifier ''physionet-data.mimiciv.patients'' True) [])),
           (''joins'', Nodes
              [Expression ''Join''
                 [(''this'', Node (Table (Some (Identifier ''physionet-data'' False)) None
                                     (Identifier ''admissions'' False) []))],
               Expression ''Join''
                 [(''this'', Node (Table None None
                                     (Identifier ''physionet-data2.foo'' True) []))]])])) =
   remove_catalog
       (Expression ''Select''
          [(''expressions'', Nodes [Expression ''Star'' []]),
           (''from'', Node (Table None None
                              (Identifier ''physionet-data.mimiciv.patients'' True) [])),
           (''joins'', Nodes
              [Expression ''Join''
                 [(''this'', Node (Table (Some (Identifier ''physionet-data'' False)) None
                                     (Identifier ''admissions'' False) []))],
               Expression ''Join''
                 [(''this'', Node (Table None None
                                     (Identifier ''physionet-data2.foo'' True) []))]])])"
proof -
  let ?e = "Expression ''Select''
          [(''expressions'', Nodes [Expression ''Star'' []]),
           (''from'', Node (Table None None
                              (Identifier ''physionet-data.mimiciv.patients'' True) [])),
           (''joins'', Nodes
              [Expression ''Join''
                 [(''this'', Node (Table (Some (Identifier ''physionet-data'' False)) None
                                     (Identifier ''admissions'' False) []))],
               Expression ''Join''
                 [(''this'', Node (Table None None
                                     (Identifier ''physionet-data2.foo'' True) []))]])]"
  have h: "\<forall>t \<in> find_all_Table ?e. stable_node t" by code_simp
  show ?thesis using remove_catalog_idempotent_iff [of ?e] h by blast
qed

text \<open>
  Claim C8 as stated fails: in a \<open>SELECT\<close> from a table with catalog \<open>physionet-data\<close>
  and the name \<open>physionet-data.foo\<close>, the first pass clears the catalog and only the
  second removes the prefix of the name.
\<close>

theorem remove_catalog_twice_counterexample:
  "remove_catalog (remove_catalog
      (Expression ''Select''
         [(''expressions'', Nodes [Expression ''Star'' []]),
          (''from'', Node (Table (Some (Identifier ''physionet-data'' False)) None
                             (Identifier ''physionet-data.foo'' True) []))])) \<noteq>
   remove_catalog
      (Expression ''Select''
         [(''expressions'', Nodes [Expression ''Star'' []]),
          (''from'', Node (Table (Some (Identifier ''physionet-data'' False)) None
                             (Identifier ''physionet-data.foo'' True) []))])"
  by code_simp

section \<open>The function pass\<close>

lemma map_of_map_args:
  "map_of (map (map_prod id g) a) k = map_option g (map_of a k)"
  by (induction a) auto

lemma this_eq_map_args:
  "this_eq (map (map_prod id (map_arg f)) a) s = this_eq a s"
  by (cases "map_of a ''this''"; cases "the (map_of a ''this'')")
     (auto simp: this_eq_def map_of_map_args)

text \<open>
  The source builds the typed node from the arguments as they are and walks into them
  afterwards; \<open>replace_anonymous\<close> walks first. Both give the same node, since the walk
  never changes the string in the \<open>this\<close> slot.
\<close>

lemma replaced_children:
  "replaced (Call k (map (map_prod id (map_arg f)) a)) =
     Call (cls (replaced (Call k a)))
          (map (map_prod id (map_arg f)) (args (replaced (Call k a))))"
  by (cases k) (simp_all add: replaced_def this_eq_map_args named_function_def)

text \<open>Below the root a recognised anonymous call becomes the typed node, with the same
  slots in the same order, each argument being the walk's result on that argument.\<close>

lemma replace_anonymous_DATETIME:
  "this_eq a ''DATETIME'' \<Longrightarrow>
     replace_anonymous (Call Anonymous a) =
       Call DateTime (map (map_prod id (map_arg replace_anonymous)) a)"
  by (simp add: replaced_def this_eq_map_args named_function_def)

lemma replace_anonymous_GENERATE_ARRAY:
  "this_eq a ''GENERATE_ARRAY'' \<Longrightarrow>
     replace_anonymous (Call Anonymous a) =
       Call GenerateArray (map (map_prod id (map_arg replace_anonymous)) a)"
proof -
  assume g: "this_eq a ''GENERATE_ARRAY''"
  then have "\<not> this_eq a ''DATETIME''" by (simp add: this_eq_def)
  with g show ?thesis by (simp add: replaced_def this_eq_map_args named_function_def)
qed

text \<open>
  Claim C3 says that every anonymous call named \<open>DATETIME\<close> or \<open>GENERATE_ARRAY\<close> is
  replaced in place by the typed node. When the call is the root of the parsed tree, as
  for the query \<open>DATETIME(a, 'UTC')\<close>, the typed node is built but the tree that is
  rendered is still the anonymous call.
\<close>

theorem root_call_not_replaced:
  "replacement (Call Anonymous
       [(''this'', Str ''DATETIME''),
        (''expressions'', Nodes [Expression ''Column'' [(''this'', Str ''a'')],
                                 Expression ''Literal'' [(''this'', Str ''UTC'')]])]) =
     Some (Call DateTime
       [(''this'', Str ''DATETIME''),
        (''expressions'', Nodes [Expression ''Column'' [(''this'', Str ''a'')],
                                 Expression ''Literal'' [(''this'', Str ''UTC'')]])]) \<and>
   function_resolver ''bigquery'' (remove_catalog (Call Anonymous
       [(''this'', Str ''DATETIME''),
        (''expressions'', Nodes [Expression ''Column'' [(''this'', Str ''a'')],
                                 Expression ''Literal'' [(''this'', Str ''UTC'')]])])) =
     Call Anonymous
       [(''this'', Str ''DATETIME''),
        (''expressions'', Nodes [Expression ''Column'' [(''this'', Str ''a'')],
                                 Expression ''Literal'' [(''this'', Str ''UTC'')]])]"
  by (simp add: function_resolver_def replace_all_anonymous_def this_eq_def named_function_def)

text \<open>A recognised call among the arguments of a recognised root stays anonymous too: it
  is replaced only inside the typed node built for the root, which is not the tree.\<close>

lemma root_call_arguments_stay:
  "function_resolver ''bigquery'' (Call Anonymous
       [(''this'', Str ''DATETIME''),
        (''expressions'', Nodes [Call Anonymous [(''this'', Str ''GENERATE_ARRAY''),
                                                 (''expressions'', Nodes [])]])]) =
     Call Anonymous
       [(''this'', Str ''DATETIME''),
        (''expressions'', Nodes [Call Anonymous [(''this'', Str ''GENERATE_ARRAY''),
                                                 (''expressions'', Nodes [])]])]"
  by (simp add: function_resolver_def replace_all_anonymous_def this_eq_def named_function_def)

text \<open>
  Claim C5. An anonymous call whose \<open>this\<close> slot is neither the string \<open>DATETIME\<close> nor the
  string \<open>GENERATE_ARRAY\<close> is not touched: the loop body takes no branch on it and it
  keeps its class and its slots, at the root and below it; its arguments are walked on
  their own. The comparison is exact, so \<open>datetime\<close> is such a name.
\<close>

theorem other_call_untouched:
  "\<not> this_eq a ''DATETIME'' \<Longrightarrow> \<not> this_eq a ''GENERATE_ARRAY'' \<Longrightarrow>
   replacement (Call Anonymous a) = None \<and>
   replaced (Call Anonymous a) = Call Anonymous a \<and>
   replace_anonymous (Call Anonymous a) =
     Call Anonymous (map (map_prod id (map_arg replace_anonymous)) a) \<and>
   replace_all_anonymous (Call Anonymous a) =
     Call Anonymous (map (map_prod id (map_arg replace_anonymous)) a)"
  by (simp add: replaced_def this_eq_map_args replace_all_anonymous_def)

theorem other_call_untouched_witness:
  "\<not> this_eq [(''this'', Str ''datetime''), (''expressions'', Nodes [])] ''DATETIME'' \<and>
   \<not> this_eq [(''this'', Str ''datetime''), (''expressions'', Nodes [])] ''GENERATE_ARRAY'' \<and>
   replace_anonymous
     (Call Anonymous [(''this'', Str ''datetime''), (''expressions'', Nodes [])]) =
     Call Anonymous [(''this'', Str ''datetime''), (''expressions'', Nodes [])]"
proof -
  have a: "\<not> this_eq [(''this'', Str ''datetime''), (''expressions'', Nodes [])] ''DATETIME''"
    by (simp add: this_eq_def)
  have b: "\<not> this_eq [(''this'', Str ''datetime''), (''expressions'', Nodes [])]
             ''GENERATE_ARRAY''"
    by (simp add: this_eq_def)
  show ?thesis using other_call_untouched [OF a b] a b by simp
qed

text \<open>
  Claim C10. Whenever the loop body builds a typed node from an anonymous call, the typed
  node's \<open>args\<close> are the anonymous call's \<open>args\<close>, entry for entry, and so its \<open>this\<close> slot
  still holds the callee name: \<open>DATETIME\<close> in a \<open>DateTime\<close> node, \<open>GENERATE_ARRAY\<close> in a
  \<open>GenerateArray\<close> node.
\<close>

theorem typed_node_keeps_args:
  "replacement (Call Anonymous a) = Some n \<Longrightarrow>
   args n = a \<and>
   (cls n = DateTime \<and> map_of (args n) ''this'' = Some (Str ''DATETIME'') \<or>
    cls n = GenerateArray \<and> map_of (args n) ''this'' = Some (Str ''GENERATE_ARRAY''))"
  by (auto simp: named_function_def this_eq_def split: if_splits)

theorem typed_node_keeps_args_witness:
  "replacement (Call Anonymous [(''this'', Str ''GENERATE_ARRAY''),
       (''expressions'', Nodes [Expression ''Literal'' [(''this'', Str ''1'')],
                                Expression ''Literal'' [(''this'', Str ''10'')]])]) =
     Some (Call GenerateArray [(''this'', Str ''GENERATE_ARRAY''),
       (''expressions'', Nodes [Expression ''Literal'' [(''this'', Str ''1'')],
                                Expression ''Literal'' [(''this'', Str ''10'')]])]) \<and>
   map_of (args (Call GenerateArray [(''this'', Str ''GENERATE_ARRAY''),
       (''expressions'', Nodes [Expression ''Literal'' [(''this'', Str ''1'')],
                                Expression ''Literal'' [(''this'', Str ''10'')]])])) ''this'' =
     Some (Str ''GENERATE_ARRAY'')"
proof -
  have h: "replacement (Call Anonymous [(''this'', Str ''GENERATE_ARRAY''),
       (''expressions'', Nodes [Expression ''Literal'' [(''this'', Str ''1'')],
                                Expression ''Literal'' [(''this'', Str ''10'')]])]) =
     Some (Call GenerateArray [(''this'', Str ''GENERATE_ARRAY''),
       (''expressions'', Nodes [Expression ''Literal'' [(''this'', Str ''1'')],
                                Expression ''Literal'' [(''this'', Str ''10'')]])])"
    by (simp add: this_eq_def named_function_def)
  show ?thesis using typed_node_keeps_args [OF h] h by simp
qed

text \<open>
  Claim C6. For a source dialect other than \<open>bigquery\<close> the function step returns the
  tree it is given, so no anonymous call in it is replaced, and \<open>transpile_query\<close> renders
  the tree as the catalog pass left it.
\<close>

theorem other_dialect_skips_functions:
  "source_dialect \<noteq> ''bigquery'' \<Longrightarrow>
   function_resolver source_dialect sql_parsed = sql_parsed \<and>
   transpile_query parse_one sql query source_dialect destination_dialect =
     (case parse_one query source_dialect of
        Inl e \<Rightarrow> Inl e
      | Inr t \<Rightarrow> sql (remove_catalog t) destination_dialect True)"
  by (simp add: function_resolver_def transpile_query_def split: sum.splits)

theorem other_dialect_skips_functions_witness:
  "''postgres'' \<noteq> ''bigquery'' \<and>
   function_resolver ''postgres''
     (Expression ''Select''
        [(''expressions'', Nodes [Call Anonymous [(''this'', Str ''DATETIME''),
                                                 (''expressions'', Nodes [])]])]) =
     Expression ''Select''
        [(''expressions'', Nodes [Call Anonymous [(''this'', Str ''DATETIME''),
                                                 (''expressions'', Nodes [])]])]"
proof -
  have h: "''postgres'' \<noteq> ''bigquery''" by simp
  show ?thesis using other_dialect_skips_functions [OF h] by simp
qed

section \<open>Failure of the parser\<close>

text \<open>
  Claim C7. When the parser raises on the query under the source dialect,
  \<open>transpile_query\<close> ends with that same error and returns no text, whatever the renderer
  would do.
\<close>

theorem parse_error_propagates:
  "parse_one query source_dialect = Inl e \<Longrightarrow>
   transpile_query parse_one sql query source_dialect destination_dialect = Inl e \<and>
   (\<forall>text. transpile_query parse_one sql query source_dialect destination_dialect \<noteq> Inr text)"
  by (simp add: transpile_query_def)

theorem parse_error_propagates_witness:
  "(\<lambda>q d. Inl (ParseError ''Expecting )'')) ''SELECT (1'' ''bigquery'' =
     (Inl (ParseError ''Expecting )'') :: error + expr) \<and>
   transpile_query (\<lambda>q d. Inl (ParseError ''Expecting )'')) (\<lambda>t d p. Inr ''SELECT 1'')
     ''SELECT (1'' ''bigquery'' ''postgres'' = Inl (ParseError ''Expecting )'')"
proof -
  have h: "(\<lambda>q d. Inl (ParseError ''Expecting )'') :: error + expr) ''SELECT (1'' ''bigquery'' =
             Inl (ParseError ''Expecting )'')" by simp
  show ?thesis
    using parse_error_propagates [of "\<lambda>q d. Inl (ParseError ''Expecting )'')" "''SELECT (1''"
            "''bigquery''" "ParseError ''Expecting )''" "\<lambda>t d p. Inr ''SELECT 1''"
            "''postgres''", OF h]
    by simp
qed

end

